theory Spec2Isabelle
  imports Complex_Main
begin

section \<open>Data model\<close>

text \<open>
  The five water-quality parameters. In the source they are the dictionary keys and CSV
  column names \<^verbatim>\<open>"pH"\<close>, \<^verbatim>\<open>"Chlorine (mg/L)"\<close>, \<^verbatim>\<open>"Hardness (mg/L as CaCO3)"\<close>,
  \<^verbatim>\<open>"Nitrates (mg/L)"\<close> and \<^verbatim>\<open>"Lead (ug/L)"\<close> (with a micro sign), always listed in this order.
\<close>

datatype param = pH | Chlorine | Hardness | Nitrates | Lead

text \<open>
  A Python float (or a cell of a float column of the data frame): a finite value, one of the
  two infinities, or NaN (which is also what pandas stores for a missing cell). A finite float
  is the real number it denotes; comparisons of floats are exact, so they are the comparisons
  of these reals. Rounding of arithmetic results is not modelled.
\<close>

datatype pyfloat = Fin real | PosInf | NegInf | NaN

fun fle :: "pyfloat \<Rightarrow> pyfloat \<Rightarrow> bool" where
  "fle NaN _ = False"
| "fle _ NaN = False"
| "fle NegInf _ = True"
| "fle _ PosInf = True"
| "fle (Fin a) (Fin b) = (a \<le> b)"
| "fle _ _ = False"

fun flt :: "pyfloat \<Rightarrow> pyfloat \<Rightarrow> bool" where
  "flt NaN _ = False"
| "flt _ NaN = False"
| "flt PosInf _ = False"
| "flt _ NegInf = False"
| "flt (Fin a) (Fin b) = (a < b)"
| "flt _ _ = True"


section \<open>Home page: safe ranges and the per-parameter loop\<close>













section \<open>Input page: the stored collection\<close>




datatype py_error = KeyError | TypeError | ValueError







section \<open>Input page: parsing the text of a photographed report\<close>

text \<open>
  The text is a Python string; a character is a code point, and the model covers the code
  points below 256, one \<^typ>\<open>char\<close> each. On these, the classes of the five patterns are:
  \<^verbatim>\<open>\d\<close> the ten ASCII digits, \<^verbatim>\<open>\s\<close> the characters \<^verbatim>\<open>str.isspace\<close> accepts
  (9 to 13, 28 to 32, 133 and 160), and under \<^verbatim>\<open>re.IGNORECASE\<close> a letter of a label matches
  its own upper and lower case.
\<close>

definition is_digit :: "char \<Rightarrow> bool" where
  "is_digit c = (c \<in> set ''0123456789'')"

definition is_space :: "char \<Rightarrow> bool" where
  "is_space c = (of_char c \<in> set [9, 10, 11, 12, 13, 28, 29, 30, 31, 32, 133, 160 :: nat])"

text \<open>\<^verbatim>\<open>[:\s]\<close> and \<^verbatim>\<open>[\d.]\<close>\<close>

definition is_sep :: "char \<Rightarrow> bool" where
  "is_sep c = (c = CHR '':'' \<or> is_space c)"

definition is_num :: "char \<Rightarrow> bool" where
  "is_num c = (is_digit c \<or> c = CHR ''.'')"

definition to_lower :: "char \<Rightarrow> char" where
  "to_lower c =
     (case map_of (zip ''ABCDEFGHIJKLMNOPQRSTUVWXYZ'' ''abcdefghijklmnopqrstuvwxyz'') c of
        None \<Rightarrow> c | Some l \<Rightarrow> l)"

text \<open>The literal part of each pattern, in the order of the dictionary \<^verbatim>\<open>patterns\<close>; every
  pattern is the label followed by \<^verbatim>\<open>[:\s]*([\d.]+)\<close>.\<close>

definition patterns :: "(param \<times> string) list" where
  "patterns =
     [(pH, ''pH''), (Chlorine, ''Chlorine''), (Hardness, ''Hardness''),
      (Nitrates, ''Nitrates''), (Lead, ''Lead'')]"

text \<open>Matching the label at the start of the text, ignoring case: the rest of the text.\<close>

fun match_label :: "string \<Rightarrow> string \<Rightarrow> string option" where
  "match_label [] s = Some s"
| "match_label (c # cs) [] = None"
| "match_label (c # cs) (t # ts) = (if to_lower t = to_lower c then match_label cs ts else None)"

text \<open>
  A match of the whole pattern at the start of the text: group 1. Both repetitions are
  greedy, and no character is in both classes, so the separators are all the leading
  \<^verbatim>\<open>[:\s]\<close> characters and the group is all the \<^verbatim>\<open>[\d.]\<close> characters after them; giving
  characters back never turns a failure into a match.
\<close>

definition match_here :: "string \<Rightarrow> string \<Rightarrow> string option" where
  "match_here lab s =
     (case match_label lab s of
        None \<Rightarrow> None
      | Some r \<Rightarrow>
          (let tok = takeWhile is_num (dropWhile is_sep r)
           in if tok = [] then None else Some tok))"

text \<open>\<^verbatim>\<open>re.search\<close>: the match at the leftmost position that has one.\<close>

fun re_search :: "string \<Rightarrow> string \<Rightarrow> string option" where
  "re_search lab [] = match_here lab []"
| "re_search lab (t # ts) =
     (case match_here lab (t # ts) of Some g \<Rightarrow> Some g | None \<Rightarrow> re_search lab ts)"

text \<open>
  \<^verbatim>\<open>float(s)\<close> for a string of digits and dots, which is all group 1 can be: digits with
  at most one dot and at least one digit, else \<^verbatim>\<open>ValueError\<close>. The value is the decimal the
  string denotes (its rounding to the nearest double is not modelled), and a decimal beyond
  the largest double is \<^verbatim>\<open>inf\<close>.
\<close>

definition digit_value :: "char \<Rightarrow> nat" where
  "digit_value c = of_char c - 48"

definition digits_value :: "string \<Rightarrow> nat" where
  "digits_value ds = foldl (\<lambda>n c. 10 * n + digit_value c) 0 ds"

definition float_overflow :: real where
  "float_overflow = 2 ^ 1024 - 2 ^ 970"

definition py_float :: "string \<Rightarrow> py_error + pyfloat" where
  "py_float s =
     (let ip = takeWhile is_digit s; r = dropWhile is_digit s;
          fp = (case r of [] \<Rightarrow> [] | c # cs \<Rightarrow> cs);
          v = real (digits_value ip) + real (digits_value fp) / 10 ^ length fp
      in if (r = [] \<or> hd r = CHR ''.'') \<and> list_all is_digit fp \<and> (ip \<noteq> [] \<or> fp \<noteq> [])
         then Inr (if float_overflow \<le> v then PosInf else Fin v)
         else Inl ValueError)"

text \<open>The loop of \<^verbatim>\<open>parse_extracted_text\<close>; an exception of \<^verbatim>\<open>float\<close> ends it.\<close>

fun parse_loop ::
  "(param \<times> string) list \<Rightarrow> string \<Rightarrow> (param \<rightharpoonup> pyfloat) \<Rightarrow> py_error + (param \<rightharpoonup> pyfloat)" where
  "parse_loop [] text readings = Inr readings"
| "parse_loop ((p, lab) # ps) text readings =
     (case re_search lab text of
        None \<Rightarrow> parse_loop ps text readings
      | Some g \<Rightarrow>
          (case py_float g of
             Inl e \<Rightarrow> Inl e
           | Inr v \<Rightarrow> parse_loop ps text (readings(p \<mapsto> v))))"

definition parse_extracted_text :: "string \<Rightarrow> py_error + (param \<rightharpoonup> pyfloat)" where
  "parse_extracted_text text = parse_loop patterns text Map.empty"

text \<open>
  The pattern read as a regular expression, for comparison with \<open>match_here\<close>: the text
  starts with the label in any case, then characters of \<^verbatim>\<open>[:\s]\<close>, then the group, a
  non-empty run of \<^verbatim>\<open>[\d.]\<close> that no further such character follows; anything may come
  after it.
\<close>

definition pattern_matches :: "string \<Rightarrow> string \<Rightarrow> string \<Rightarrow> bool" where
  "pattern_matches lab s tok \<longleftrightarrow>
     (\<exists>l sep rest. s = l @ sep @ tok @ rest \<and> map to_lower l = map to_lower lab \<and>
        list_all is_sep sep \<and> tok \<noteq> [] \<and> list_all is_num tok \<and>
        (case rest of [] \<Rightarrow> True | c # cs \<Rightarrow> \<not> is_num c))"

text \<open>\<open>first_match lab text tok\<close>: the pattern matches at some position of the text with
  group \<open>tok\<close>, and at no earlier position.\<close>

definition first_match :: "string \<Rightarrow> string \<Rightarrow> string \<Rightarrow> bool" where
  "first_match lab text tok \<longleftrightarrow>
     (\<exists>i. i \<le> length text \<and> pattern_matches lab (drop i text) tok \<and>
        (\<forall>j<i. \<forall>t. \<not> pattern_matches lab (drop j text) t))"

text \<open>
  The manual flow reads each parameter from \<^verbatim>\<open>st.number_input\<close> with these
  \<^verbatim>\<open>min_value\<close> and \<^verbatim>\<open>max_value\<close>.
\<close>

definition number_input_bounds :: "param \<Rightarrow> real \<times> real" where
  "number_input_bounds p =
     (case p of pH \<Rightarrow> (0, 14) | Chlorine \<Rightarrow> (0, 10) | Hardness \<Rightarrow> (0, 500)
      | Nitrates \<Rightarrow> (0, 50) | Lead \<Rightarrow> (0, 100))"

text \<open>
  Modelled from the spec: the widget is streamlit's, not code of this repository; it hands
  over only a value within its bounds ("every manually entered value is constrained").
\<close>

definition number_input :: "real \<times> real \<Rightarrow> real \<Rightarrow> real option" where
  "number_input bounds x = (if fst bounds \<le> x \<and> x \<le> snd bounds then Some x else None)"

definition manual_readings :: "(param \<Rightarrow> real) \<Rightarrow> (param \<rightharpoonup> pyfloat) option" where
  "manual_readings entered =
     (if \<forall>p \<in> set [pH, Chlorine, Hardness, Nitrates, Lead].
           number_input (number_input_bounds p) (entered p) \<noteq> None
      then Some (\<lambda>p. Some (Fin (entered p)))
      else None)"

section \<open>Input page: from coordinates to a zipcode\<close>

type_synonym point = "real \<times> real"

text \<open>\<^verbatim>\<open>known_zipcode_coords\<close>, an insertion-ordered dictionary.\<close>

definition known_zipcode_coords :: "(string \<times> point) list" where
  "known_zipcode_coords =
     [(''95110'', (37.3422, -121.8996)),
      (''95112'', (37.3535, -121.8865)),
      (''95113'', (37.3333, -121.8907)),
      (''95116'', (37.3496, -121.8569)),
      (''95117'', (37.3126, -121.9502)),
      (''95118'', (37.2505, -121.8891)),
      (''95120'', (37.2060, -121.8133))]"

text \<open>
  The loop of \<^verbatim>\<open>get_nearest_zipcode\<close> over the items of a table, with its two variables
  \<^verbatim>\<open>min_distance\<close> and \<^verbatim>\<open>nearest_zipcode\<close>. The distance \<^verbatim>\<open>geodesic(a, b).miles\<close> is
  geopy's; it is a parameter here, a function to the finite float it returns.
\<close>

fun nearest_loop ::
  "(point \<Rightarrow> point \<Rightarrow> real) \<Rightarrow> point \<Rightarrow> (string \<times> point) list \<Rightarrow> pyfloat \<Rightarrow> string option \<Rightarrow>
     string option" where
  "nearest_loop geodesic_miles p [] min_distance nearest_zipcode = nearest_zipcode"
| "nearest_loop geodesic_miles p ((zipcode, coord) # items) min_distance nearest_zipcode =
     (let distance = Fin (geodesic_miles p coord)
      in if flt distance min_distance
         then nearest_loop geodesic_miles p items distance (Some zipcode)
         else nearest_loop geodesic_miles p items min_distance nearest_zipcode)"

definition get_nearest_zipcode :: "(point \<Rightarrow> point \<Rightarrow> real) \<Rightarrow> real \<Rightarrow> real \<Rightarrow> string option" where
  "get_nearest_zipcode geodesic_miles lat lon =
     nearest_loop geodesic_miles (lat, lon) known_zipcode_coords PosInf None"

text \<open>
  Modelled from the spec: the great-circle distance between two points given in degrees
  (latitude, longitude), by the haversine formula on a sphere of the mean earth radius, in
  miles. It stands for geopy's \<^verbatim>\<open>geodesic\<close> where a concrete distance is needed.
\<close>

definition radians :: "real \<Rightarrow> real" where
  "radians d = d * pi / 180"

definition haversine :: "point \<Rightarrow> point \<Rightarrow> real" where
  "haversine a b =
     (sin ((radians (fst b) - radians (fst a)) / 2))\<^sup>2 +
     cos (radians (fst a)) * cos (radians (fst b)) *
       (sin ((radians (snd b) - radians (snd a)) / 2))\<^sup>2"

definition earth_radius_miles :: real where
  "earth_radius_miles = 6371.009 / 1.609344"

definition great_circle_miles :: "point \<Rightarrow> point \<Rightarrow> real" where
  "great_circle_miles a b = 2 * earth_radius_miles * arcsin (sqrt (haversine a b))"

text \<open>A decoded JSON document; \<^verbatim>\<open>None\<close> is \<open>JNull\<close>. A value the function returns is of
  this type too: the postcode as the response has it, or the string (or \<^verbatim>\<open>None\<close>) of
  \<^verbatim>\<open>get_nearest_zipcode\<close>.\<close>

datatype json =
    JNull
  | JBool bool
  | JNumber real
  | JString string
  | JArray "json list"
  | JObject "(string \<times> json) list"

text \<open>The subclasses of \<^verbatim>\<open>requests.RequestException\<close> that \<^verbatim>\<open>requests.get\<close>,
  \<^verbatim>\<open>raise_for_status\<close> and \<^verbatim>\<open>response.json\<close> raise.\<close>

datatype request_exception = ConnectionError | Timeout | HTTPError | JSONDecodeError

text \<open>What the remote service does with one request: it answers with a JSON document, the
  request fails, or no answer ever comes.\<close>

datatype server = Replies json | Fails request_exception | Silent

text \<open>
  \<^verbatim>\<open>requests.get\<close> followed by \<^verbatim>\<open>raise_for_status\<close> and \<^verbatim>\<open>json\<close>, with the
  \<^verbatim>\<open>timeout\<close> argument of the call (\<open>None\<close> when the call passes none: requests then waits
  without limit). The result \<open>None\<close> is a call that does not return.
\<close>

definition requests_get :: "real option \<Rightarrow> server \<Rightarrow> (request_exception + json) option" where
  "requests_get timeout srv =
     (case srv of
        Replies data \<Rightarrow> Some (Inr data)
      | Fails e \<Rightarrow> Some (Inl e)
      | Silent \<Rightarrow> (case timeout of None \<Rightarrow> None | Some t \<Rightarrow> Some (Inl Timeout)))"

text \<open>The \<^verbatim>\<open>timeout\<close> argument of the call in \<^verbatim>\<open>get_zipcode_from_coordinates\<close>, which is
  \<^verbatim>\<open>requests.get(url)\<close>.\<close>

definition geocode_timeout :: "real option" where
  "geocode_timeout = None"

fun starts_with :: "string \<Rightarrow> string \<Rightarrow> bool" where
  "starts_with [] s = True"
| "starts_with (c # cs) [] = False"
| "starts_with (c # cs) (t # ts) = (c = t \<and> starts_with cs ts)"

fun substring_of :: "string \<Rightarrow> string \<Rightarrow> bool" where
  "substring_of k [] = (k = [])"
| "substring_of k (t # ts) = (starts_with k (t # ts) \<or> substring_of k ts)"

text \<open>\<^verbatim>\<open>key in value\<close> and \<^verbatim>\<open>value[key]\<close> for a string key, on each kind of decoded
  document.\<close>

fun py_contains :: "string \<Rightarrow> json \<Rightarrow> py_error + bool" where
  "py_contains k (JObject kvs) = Inr (k \<in> fst ` set kvs)"
| "py_contains k (JArray xs) = Inr (JString k \<in> set xs)"
| "py_contains k (JString s) = Inr (substring_of k s)"
| "py_contains k _ = Inl TypeError"

fun py_getitem :: "json \<Rightarrow> string \<Rightarrow> py_error + json" where
  "py_getitem (JObject kvs) k =
     (case map_of (rev kvs) k of None \<Rightarrow> Inl KeyError | Some v \<Rightarrow> Inr v)"
| "py_getitem _ k = Inl TypeError"

datatype warning = CouldNotConnect request_exception

definition nearest_value :: "(point \<Rightarrow> point \<Rightarrow> real) \<Rightarrow> real \<Rightarrow> real \<Rightarrow> json" where
  "nearest_value geodesic_miles lat lon =
     (case get_nearest_zipcode geodesic_miles lat lon of None \<Rightarrow> JNull | Some z \<Rightarrow> JString z)"

text \<open>
  \<^verbatim>\<open>get_zipcode_from_coordinates\<close>. The result is \<open>None\<close> when the call does not return,
  else an exception that leaves the function or the value returned with the warnings shown.
\<close>

definition get_zipcode_from_coordinates ::
  "(point \<Rightarrow> point \<Rightarrow> real) \<Rightarrow> server \<Rightarrow> real \<Rightarrow> real \<Rightarrow> (py_error + json \<times> warning list) option" where
  "get_zipcode_from_coordinates geodesic_miles srv lat lon =
     (case requests_get geocode_timeout srv of
        None \<Rightarrow> None
      | Some (Inl e) \<Rightarrow> Some (Inr (nearest_value geodesic_miles lat lon, [CouldNotConnect e]))
      | Some (Inr data) \<Rightarrow>
          Some (case py_contains ''address'' data of
                  Inl err \<Rightarrow> Inl err
                | Inr False \<Rightarrow> Inr (nearest_value geodesic_miles lat lon, [])
                | Inr True \<Rightarrow>
                    (case py_getitem data ''address'' of
                       Inl err \<Rightarrow> Inl err
                     | Inr address \<Rightarrow>
                         (case py_contains ''postcode'' address of
                            Inl err \<Rightarrow> Inl err
                          | Inr False \<Rightarrow> Inr (nearest_value geodesic_miles lat lon, [])
                          | Inr True \<Rightarrow>
                              (case py_getitem address ''postcode'' of
                                 Inl err \<Rightarrow> Inl err
                               | Inr postcode \<Rightarrow> Inr (postcode, []))))))"

text \<open>
  The answer the function is written for: an object whose address entry, if there is one,
  is an object; and the postcode of such an answer, if it has one. Both are used to state
  what the function returns, not by the function.
\<close>

definition postcode_of :: "json \<Rightarrow> json option" where
  "postcode_of data =
     (case data of
        JObject kvs \<Rightarrow>
          (case map_of (rev kvs) ''address'' of
             Some (JObject akvs) \<Rightarrow> map_of (rev akvs) ''postcode''
           | _ \<Rightarrow> None)
      | _ \<Rightarrow> None)"

definition expected_shape :: "json \<Rightarrow> bool" where
  "expected_shape data =
     (case data of
        JObject kvs \<Rightarrow>
          (case map_of (rev kvs) ''address'' of
             None \<Rightarrow> True
           | Some (JObject akvs) \<Rightarrow> True
           | Some _ \<Rightarrow> False)
      | _ \<Rightarrow> False)"

section \<open>Compliance evaluation\<close>















section \<open>Deleting a stored record\<close>








section \<open>Submitting a record\<close>







section \<open>Parsing readings from text\<close>

lemma num_not_sep: "is_num c \<Longrightarrow> \<not> is_sep c"
  by (auto simp: is_num_def is_sep_def is_digit_def is_space_def)

lemma match_label_iff:
  "match_label lab s = Some r \<longleftrightarrow> (\<exists>l. s = l @ r \<and> map to_lower l = map to_lower lab)"
proof (induction lab s rule: match_label.induct)
  case (1 s)
  show ?case by auto
next
  case (2 c cs)
  show ?case by auto
next
  case (3 c cs t ts)
  show ?case
  proof (cases "to_lower t = to_lower c")
    case True
    have "(\<exists>l. t # ts = l @ r \<and> map to_lower l = map to_lower (c # cs)) \<longleftrightarrow>
          (\<exists>l'. ts = l' @ r \<and> map to_lower l' = map to_lower cs)"
      using True by (auto simp: Cons_eq_append_conv map_eq_Cons_conv)
    then show ?thesis using 3 True by simp
  next
    case False
    then show ?thesis by (auto simp: Cons_eq_append_conv map_eq_Cons_conv)
  qed
qed

lemma dropWhile_sep_tok:
  "list_all is_sep sep \<Longrightarrow> tok \<noteq> [] \<Longrightarrow> list_all is_num tok \<Longrightarrow>
   dropWhile is_sep (sep @ tok @ rest) = tok @ rest"
  by (induction sep) (auto simp: neq_Nil_conv num_not_sep)

lemma takeWhile_tok:
  "list_all is_num tok \<Longrightarrow> (case rest of [] \<Rightarrow> True | c # cs \<Rightarrow> \<not> is_num c) \<Longrightarrow>
   takeWhile is_num (tok @ rest) = tok"
  by (induction tok) (auto split: list.splits)

lemma list_all_takeWhile: "list_all P (takeWhile P xs)"
  by (induction xs) auto

lemma dropWhile_head: "case dropWhile P xs of [] \<Rightarrow> True | c # cs \<Rightarrow> \<not> P c"
  by (induction xs) auto

lemma match_here_iff: "match_here lab s = Some tok \<longleftrightarrow> pattern_matches lab s tok"
proof
  assume m: "match_here lab s = Some tok"
  then obtain r where r: "match_label lab s = Some r"
    by (auto simp: match_here_def split: option.splits)
  then obtain l where l: "s = l @ r" "map to_lower l = map to_lower lab"
    using match_label_iff by blast
  from m r have tok: "tok = takeWhile is_num (dropWhile is_sep r)" "tok \<noteq> []"
    by (auto simp: match_here_def Let_def split: if_splits)
  let ?sep = "takeWhile is_sep r"
  let ?rest = "dropWhile is_num (dropWhile is_sep r)"
  have "r = ?sep @ tok @ ?rest" by (simp add: tok)
  then have s: "s = l @ ?sep @ tok @ ?rest" using l by simp
  have sep: "list_all is_sep ?sep" by (rule list_all_takeWhile)
  have num: "list_all is_num tok" unfolding tok by (rule list_all_takeWhile)
  have rest: "case ?rest of [] \<Rightarrow> True | c # cs \<Rightarrow> \<not> is_num c"
    by (rule dropWhile_head)
  show "pattern_matches lab s tok"
    unfolding pattern_matches_def using s l(2) sep tok(2) num rest by blast
next
  assume "pattern_matches lab s tok"
  then obtain l sep rest where h: "s = l @ sep @ tok @ rest" "map to_lower l = map to_lower lab"
    "list_all is_sep sep" "tok \<noteq> []" "list_all is_num tok"
    "case rest of [] \<Rightarrow> True | c # cs \<Rightarrow> \<not> is_num c"
    unfolding pattern_matches_def by blast
  have "match_label lab s = Some (sep @ tok @ rest)"
    using match_label_iff h(1,2) by blast
  then show "match_here lab s = Some tok"
    using h by (simp add: match_here_def dropWhile_sep_tok takeWhile_tok)
qed

lemma match_here_None_iff: "match_here lab s = None \<longleftrightarrow> (\<forall>t. \<not> pattern_matches lab s t)"
  using match_here_iff[of lab s] by (cases "match_here lab s") auto

lemma re_search_iff:
  "re_search lab str = Some tok \<longleftrightarrow>
     (\<exists>i. i \<le> length str \<and> match_here lab (drop i str) = Some tok \<and>
        (\<forall>j<i. match_here lab (drop j str) = None))"
proof (induction str)
  case Nil
  show ?case by auto
next
  case (Cons t ts)
  show ?case
  proof (cases "match_here lab (t # ts)")
    case (Some g)
    show ?thesis
    proof
      assume "re_search lab (t # ts) = Some tok"
      then have "g = tok" using Some by simp
      then show "\<exists>i. i \<le> length (t # ts) \<and> match_here lab (drop i (t # ts)) = Some tok \<and>
        (\<forall>j<i. match_here lab (drop j (t # ts)) = None)"
        using Some by (intro exI[of _ 0]) simp
    next
      assume "\<exists>i. i \<le> length (t # ts) \<and> match_here lab (drop i (t # ts)) = Some tok \<and>
        (\<forall>j<i. match_here lab (drop j (t # ts)) = None)"
      then obtain i where i: "match_here lab (drop i (t # ts)) = Some tok"
        "\<forall>j<i. match_here lab (drop j (t # ts)) = None" by blast
      have "i = 0"
      proof (rule ccontr)
        assume "i \<noteq> 0"
        then have "match_here lab (drop 0 (t # ts)) = None" using i(2) by blast
        then show False using Some by simp
      qed
      then show "re_search lab (t # ts) = Some tok" using i(1) Some by simp
    qed
  next
    case None
    have "(\<exists>i. i \<le> length (t # ts) \<and> match_here lab (drop i (t # ts)) = Some tok \<and>
        (\<forall>j<i. match_here lab (drop j (t # ts)) = None)) \<longleftrightarrow>
        (\<exists>i. i \<le> length ts \<and> match_here lab (drop i ts) = Some tok \<and>
        (\<forall>j<i. match_here lab (drop j ts) = None))" (is "?L \<longleftrightarrow> ?R")
    proof
      assume ?L
      then obtain i where i: "i \<le> length (t # ts)" "match_here lab (drop i (t # ts)) = Some tok"
        "\<forall>j<i. match_here lab (drop j (t # ts)) = None" by blast
      then obtain k where k: "i = Suc k" using None by (cases i) auto
      have "\<forall>j<k. match_here lab (drop j ts) = None"
      proof (intro allI impI)
        fix j assume "j < k"
        then have "Suc j < i" using k by simp
        then have "match_here lab (drop (Suc j) (t # ts)) = None" using i(3) by blast
        then show "match_here lab (drop j ts) = None" by simp
      qed
      then show ?R using i k by (intro exI[of _ k]) simp
    next
      assume ?R
      then obtain i where i: "i \<le> length ts" "match_here lab (drop i ts) = Some tok"
        "\<forall>j<i. match_here lab (drop j ts) = None" by blast
      have "\<forall>j<Suc i. match_here lab (drop j (t # ts)) = None"
      proof (intro allI impI)
        fix j assume j: "j < Suc i"
        show "match_here lab (drop j (t # ts)) = None"
        proof (cases j)
          case 0
          then show ?thesis using None by simp
        next
          case (Suc m)
          then show ?thesis using i(3) j by simp
        qed
      qed
      then show ?L using i by (intro exI[of _ "Suc i"]) simp
    qed
    then show ?thesis using Cons.IH None by simp
  qed
qed

lemma re_search_first_match: "re_search lab str = Some tok \<longleftrightarrow> first_match lab str tok"
  unfolding re_search_iff first_match_def match_here_iff match_here_None_iff ..


lemma digit_not_dot: "is_digit c \<Longrightarrow> c \<noteq> CHR ''.''"
  by (auto simp: is_digit_def)

lemma num_cases: "is_num c \<Longrightarrow> \<not> is_digit c \<Longrightarrow> c = CHR ''.''"
  by (simp add: is_num_def)

lemma no_dots_digits: "list_all is_digit ds \<Longrightarrow> filter (\<lambda>c. c = CHR ''.'') ds = []"
  by (induction ds) (auto simp: digit_not_dot)

lemma num_no_dots_digits:
  "list_all is_num ds \<Longrightarrow> filter (\<lambda>c. c = CHR ''.'') ds = [] \<Longrightarrow> list_all is_digit ds"
  by (induction ds) (auto simp: is_num_def split: if_splits)

lemma py_float_nonneg: "py_float s = Inr v \<Longrightarrow> fle (Fin 0) v"
  by (auto simp: py_float_def Let_def split: if_splits)

lemma py_float_error: "py_float s = Inl e \<Longrightarrow> e = ValueError"
  by (auto simp: py_float_def Let_def split: if_splits)

lemma parse_loop_error: "parse_loop ps s r = Inl e \<Longrightarrow> e = ValueError"
proof (induction ps arbitrary: r)
  case Nil
  then show ?case by simp
next
  case (Cons a ps)
  obtain q lab where a: "a = (q, lab)" by (cases a) auto
  show ?case using Cons a
    by (auto split: option.splits sum.splits dest: py_float_error)
qed

lemma parse_loop_outside:
  "parse_loop ps s r = Inr m \<Longrightarrow> p \<notin> fst ` set ps \<Longrightarrow> m p = r p"
proof (induction ps arbitrary: r)
  case Nil
  then show ?case by simp
next
  case (Cons a ps)
  obtain q lab where a: "a = (q, lab)" by (cases a) auto
  have pq: "p \<noteq> q" and pps: "p \<notin> fst ` set ps" using Cons.prems(2) a by auto
  show ?case
  proof (cases "re_search lab s")
    case None
    then show ?thesis using Cons.IH[of r] Cons.prems(1) a pps by simp
  next
    case (Some tok)
    then obtain v where v: "py_float tok = Inr v"
      using Cons.prems(1) a by (cases "py_float tok") auto
    then have "parse_loop ps s (r(q \<mapsto> v)) = Inr m" using Cons.prems(1) a Some by simp
    from Cons.IH[OF this pps] show ?thesis using pq by simp
  qed
qed

lemma parse_loop_result:
  "distinct (map fst ps) \<Longrightarrow> parse_loop ps s r = Inr m \<Longrightarrow> (p, lab) \<in> set ps \<Longrightarrow>
   (case re_search lab s of None \<Rightarrow> m p = r p
    | Some tok \<Rightarrow> (\<exists>v. py_float tok = Inr v \<and> m p = Some v))"
proof (induction ps arbitrary: r)
  case Nil
  then show ?case by simp
next
  case (Cons a ps)
  obtain q lq where a: "a = (q, lq)" by (cases a) auto
  have dist: "distinct (map fst ps)" and qn: "q \<notin> fst ` set ps" using Cons.prems(1) a by auto
  show ?case
  proof (cases "(p, lab) = (q, lq)")
    case True
    then have eq: "p = q" "lab = lq" by simp_all
    show ?thesis
    proof (cases "re_search lq s")
      case None
      then have "parse_loop ps s r = Inr m" using Cons.prems(2) a by simp
      from parse_loop_outside[OF this qn] show ?thesis using None eq by simp
    next
      case (Some tok)
      then obtain v where v: "py_float tok = Inr v"
        using Cons.prems(2) a by (cases "py_float tok") auto
      then have "parse_loop ps s (r(q \<mapsto> v)) = Inr m" using Cons.prems(2) a Some by simp
      from parse_loop_outside[OF this qn] show ?thesis using Some eq v by simp
    qed
  next
    case False
    then have mem: "(p, lab) \<in> set ps" using Cons.prems(3) a by auto
    then have pq: "p \<noteq> q" using qn by force
    show ?thesis
    proof (cases "re_search lq s")
      case None
      then have "parse_loop ps s r = Inr m" using Cons.prems(2) a by simp
      from Cons.IH[OF dist this mem] show ?thesis .
    next
      case (Some tok)
      then obtain v where v: "py_float tok = Inr v"
        using Cons.prems(2) a by (cases "py_float tok") auto
      then have "parse_loop ps s (r(q \<mapsto> v)) = Inr m" using Cons.prems(2) a Some by simp
      from Cons.IH[OF dist this mem] show ?thesis using pq by (simp split: option.splits)
    qed
  qed
qed

lemma parse_loop_ok_iff:
  "(\<exists>m. parse_loop ps s r = Inr m) \<longleftrightarrow>
   (\<forall>(p, lab) \<in> set ps. \<forall>tok. re_search lab s = Some tok \<longrightarrow> (\<exists>v. py_float tok = Inr v))"
proof (induction ps arbitrary: r)
  case Nil
  show ?case by simp
next
  case (Cons a ps)
  obtain q lq where a: "a = (q, lq)" by (cases a) auto
  show ?case
  proof (cases "re_search lq s")
    case None
    then show ?thesis using Cons.IH[of r] a by simp
  next
    case (Some tok)
    show ?thesis
    proof (cases "py_float tok")
      case (Inl e)
      then show ?thesis using Some a by auto
    next
      case (Inr v)
      have "parse_loop (a # ps) s r = parse_loop ps s (r(q \<mapsto> v))"
        using Some a Inr by simp
      moreover have "(\<forall>(p, lab) \<in> set (a # ps). \<forall>tok. re_search lab s = Some tok \<longrightarrow>
            (\<exists>v. py_float tok = Inr v)) \<longleftrightarrow>
          (\<forall>(p, lab) \<in> set ps. \<forall>tok. re_search lab s = Some tok \<longrightarrow>
            (\<exists>v. py_float tok = Inr v))"
        using Some a Inr by simp
      ultimately show ?thesis using Cons.IH[of "r(q \<mapsto> v)"] by (simp only:)
    qed
  qed
qed

lemma patterns_distinct: "distinct (map fst patterns)"
  by (simp add: patterns_def)

lemma parse_result:
  assumes "parse_extracted_text s = Inr m" "(p, lab) \<in> set patterns"
  shows "m p = Some v \<longleftrightarrow> (\<exists>tok. first_match lab s tok \<and> py_float tok = Inr v)"
proof -
  have r: "case re_search lab s of None \<Rightarrow> m p = None
    | Some tok \<Rightarrow> (\<exists>v. py_float tok = Inr v \<and> m p = Some v)"
    using parse_loop_result[OF patterns_distinct, of s Map.empty m p lab] assms
    by (simp add: parse_extracted_text_def)
  show ?thesis
  proof (cases "re_search lab s")
    case None
    then have "\<forall>tok. \<not> first_match lab s tok" using re_search_first_match[of lab s] by simp
    then show ?thesis using r None by simp
  next
    case (Some tok)
    have fm: "first_match lab s t \<longleftrightarrow> t = tok" for t
    proof
      assume "first_match lab s t"
      then have "re_search lab s = Some t" using re_search_first_match[of lab s t] by simp
      then show "t = tok" using Some by simp
    next
      assume "t = tok"
      then show "first_match lab s t" using Some re_search_first_match[of lab s tok] by simp
    qed
    obtain w where w: "py_float tok = Inr w" "m p = Some w" using r Some by auto
    show ?thesis unfolding fm using w by auto
  qed
qed

lemma dot_not_digit: "\<not> is_digit CHR ''.''"
  by (simp add: is_digit_def)

lemma py_float_ok_iff:
  assumes num: "list_all is_num tok"
  shows "(\<exists>v. py_float tok = Inr v) \<longleftrightarrow>
     length (filter (\<lambda>c. c = CHR ''.'') tok) \<le> 1 \<and> (\<exists>c\<in>set tok. is_digit c)"
proof -
  define ip where "ip = takeWhile is_digit tok"
  define r where "r = dropWhile is_digit tok"
  define fp where "fp = (case r of [] \<Rightarrow> [] | c # cs \<Rightarrow> cs)"
  have tok: "tok = ip @ r" by (simp add: ip_def r_def)
  have ipd: "list_all is_digit ip" unfolding ip_def by (rule list_all_takeWhile)
  have rh: "case r of [] \<Rightarrow> True | c # cs \<Rightarrow> \<not> is_digit c"
    unfolding r_def by (rule dropWhile_head)
  have ok: "(\<exists>v. py_float tok = Inr v) \<longleftrightarrow>
      (r = [] \<or> hd r = CHR ''.'') \<and> list_all is_digit fp \<and> (ip \<noteq> [] \<or> fp \<noteq> [])"
    by (simp add: py_float_def Let_def ip_def r_def fp_def)
  have ipdig: "(\<exists>c\<in>set ip. is_digit c) \<longleftrightarrow> ip \<noteq> []"
    using ipd by (cases ip) (auto simp: list_all_iff)
  have ipdots: "filter (\<lambda>c. c = CHR ''.'') ip = []" using ipd by (rule no_dots_digits)
  show ?thesis
  proof (cases r)
    case Nil
    have t: "tok = ip" using tok Nil by simp
    have f: "fp = []" using Nil by (simp add: fp_def)
    have g: "length (filter (\<lambda>c. c = CHR ''.'') tok) \<le> 1 \<and> (\<exists>c\<in>set tok. is_digit c) \<longleftrightarrow>
        ip \<noteq> []"
      unfolding t using ipdig ipdots by simp
    show ?thesis unfolding ok g using Nil f by simp
  next
    case (Cons c cs)
    have cnd: "\<not> is_digit c" using rh Cons by simp
    have "is_num c" using num tok Cons by (simp add: list_all_iff)
    then have c: "c = CHR ''.''" using cnd by (rule num_cases)
    have csn: "list_all is_num cs" using num tok Cons by (simp add: list_all_iff)
    have f: "fp = cs" using Cons by (simp add: fp_def)
    have t: "tok = ip @ CHR ''.'' # cs" using tok Cons c by simp
    have dots: "length (filter (\<lambda>c. c = CHR ''.'') tok) =
        Suc (length (filter (\<lambda>c. c = CHR ''.'') cs))"
      unfolding t using ipdots by simp
    have A: "list_all is_digit cs \<longleftrightarrow> length (filter (\<lambda>c. c = CHR ''.'') tok) \<le> 1"
      using no_dots_digits[of cs] num_no_dots_digits[OF csn] unfolding dots by auto
    have digs: "(\<exists>c\<in>set tok. is_digit c) \<longleftrightarrow> ip \<noteq> [] \<or> (\<exists>c\<in>set cs. is_digit c)"
      unfolding t using ipdig dot_not_digit by auto
    have B: "list_all is_digit cs \<Longrightarrow> (\<exists>c\<in>set cs. is_digit c) \<longleftrightarrow> cs \<noteq> []"
      by (cases cs) (auto simp: list_all_iff)
    have hd: "hd r = CHR ''.''" "r \<noteq> []" using Cons c by simp_all
    show ?thesis
    proof (cases "list_all is_digit cs")
      case True
      then show ?thesis unfolding ok f digs using hd A B by simp
    next
      case False
      then show ?thesis unfolding ok f using A by simp
    qed
  qed
qed

lemma first_match_num: "first_match lab s tok \<Longrightarrow> list_all is_num tok"
  by (auto simp: first_match_def pattern_matches_def)

lemma parse_ok_iff:
  "(\<exists>m. parse_extracted_text s = Inr m) \<longleftrightarrow>
   (\<forall>(p, lab) \<in> set patterns. \<forall>tok. first_match lab s tok \<longrightarrow>
      length (filter (\<lambda>c. c = CHR ''.'') tok) \<le> 1 \<and> (\<exists>c\<in>set tok. is_digit c))"
proof -
  have key: "(\<exists>v. py_float tok = Inr v) =
      (length (filter (\<lambda>c. c = CHR ''.'') tok) \<le> 1 \<and> (\<exists>c\<in>set tok. is_digit c))"
    if "first_match lab s tok" for lab tok
    using that by (intro py_float_ok_iff first_match_num)
  have "(\<forall>tok. first_match lab s tok \<longrightarrow> (\<exists>v. py_float tok = Inr v)) \<longleftrightarrow>
      (\<forall>tok. first_match lab s tok \<longrightarrow>
        length (filter (\<lambda>c. c = CHR ''.'') tok) \<le> 1 \<and> (\<exists>c\<in>set tok. is_digit c))" for lab
    using key[of lab] by blast
  then show ?thesis
    unfolding parse_extracted_text_def parse_loop_ok_iff re_search_first_match
    by (simp only:)
qed

lemmas eval_defs = parse_extracted_text_def patterns_def match_here_def to_lower_def is_sep_def
  is_num_def is_digit_def is_space_def py_float_def digits_value_def digit_value_def
  float_overflow_def

lemma parse_example_embedded: "parse_extracted_text ''pH12.3mg'' = Inr [pH \<mapsto> Fin 12.3]"
  by (simp add: eval_defs)

lemma parse_example_two:
  "parse_extracted_text ''pH: 7.2 Chlorine 1.5mg/L'' = Inr [pH \<mapsto> Fin 7.2, Chlorine \<mapsto> Fin 1.5]"
  by (simp add: eval_defs)

lemma parse_empty: "parse_extracted_text [] = Inr Map.empty"
  by (simp add: parse_extracted_text_def patterns_def match_here_def)

text \<open>
  C5. For each parameter the search finds the leftmost position at which the text has the
  label in any case, then any colons and whitespace, then a non-empty run of digits and dots
  (the group); what comes after the run does not matter. When parsing returns a mapping, the
  value of a parameter is the float of the group of that first match, so that
  \<^verbatim>\<open>pH12.3mg\<close> gives pH 12.3, and \<^verbatim>\<open>pH: 7.2 Chlorine 1.5mg/L\<close> gives exactly pH 7.2 and
  Chlorine 1.5.
\<close>

theorem parse_takes_first_match:
  "(re_search lab s = Some tok \<longleftrightarrow> first_match lab s tok) \<and>
   (parse_extracted_text s = Inr m \<and> (p, lab) \<in> set patterns \<longrightarrow>
      (m p = Some v \<longleftrightarrow> (\<exists>t. first_match lab s t \<and> py_float t = Inr v))) \<and>
   parse_extracted_text ''pH12.3mg'' = Inr [pH \<mapsto> Fin 12.3] \<and>
   parse_extracted_text ''pH: 7.2 Chlorine 1.5mg/L'' =
     Inr [pH \<mapsto> Fin 7.2, Chlorine \<mapsto> Fin 1.5]"
  using re_search_first_match[of lab s tok] parse_result[of s m p lab v]
    parse_example_embedded parse_example_two
  by blast

theorem parse_takes_first_match_witness:
  "first_match ''pH'' ''PH : 7.2 ph 9'' ''7.2'' \<and>
   parse_extracted_text ''PH : 7.2 ph 9'' = Inr [pH \<mapsto> Fin 7.2] \<and>
   (pH, ''pH'') \<in> set patterns \<and>
   (\<exists>t. first_match ''pH'' ''PH : 7.2 ph 9'' t \<and> py_float t = Inr (Fin 7.2))"
proof -
  note t = parse_takes_first_match[of "''pH''" "''PH : 7.2 ph 9''" "''7.2''"
      "[pH \<mapsto> Fin 7.2]" pH "Fin 7.2"]
  have a: "re_search ''pH'' ''PH : 7.2 ph 9'' = Some ''7.2''"
    by (simp add: eval_defs)
  have b: "parse_extracted_text ''PH : 7.2 ph 9'' = Inr [pH \<mapsto> Fin 7.2]"
    by (simp add: eval_defs)
  have c: "(pH, ''pH'') \<in> set patterns" by (simp add: patterns_def)
  have d: "[pH \<mapsto> Fin 7.2] pH = Some (Fin 7.2)" by simp
  show ?thesis using t a b c d by blast
qed

text \<open>
  The claim of C6 that parsing never raises fails: in \<^verbatim>\<open>pH: 7.2. Chlorine: 1.5\<close> the
  group matched for pH is \<^verbatim>\<open>7.2.\<close>, which \<^verbatim>\<open>float\<close> rejects with a ValueError that
  nothing catches.
\<close>

theorem parse_raises_on_unparseable_token:
  "parse_extracted_text ''pH: 7.2. Chlorine: 1.5'' = Inl ValueError"
  by (simp add: eval_defs)

text \<open>
  C6, as amended. Parsing returns a mapping exactly when every matched group has at most
  one dot and at least one digit (the groups \<^verbatim>\<open>float\<close> accepts); the only exception it
  raises is the ValueError of \<^verbatim>\<open>float\<close>. In a returned mapping a parameter whose pattern
  has no match is absent, and the empty text gives the empty mapping.
\<close>

theorem parse_total_on_float_tokens:
  "((\<exists>m. parse_extracted_text s = Inr m) \<longleftrightarrow>
      (\<forall>(p, lab) \<in> set patterns. \<forall>tok. first_match lab s tok \<longrightarrow>
         length (filter (\<lambda>c. c = CHR ''.'') tok) \<le> 1 \<and> (\<exists>c\<in>set tok. is_digit c))) \<and>
   (parse_extracted_text s = Inr m \<and> (p, lab) \<in> set patterns \<and>
      (\<forall>tok. \<not> first_match lab s tok) \<longrightarrow> m p = None) \<and>
   (parse_extracted_text s = Inl e \<longrightarrow> e = ValueError) \<and>
   parse_extracted_text [] = Inr Map.empty"
proof -
  have omit: "m p = None"
    if "parse_extracted_text s = Inr m" "(p, lab) \<in> set patterns"
      "\<forall>tok. \<not> first_match lab s tok"
  proof (cases "m p")
    case None
    then show ?thesis .
  next
    case (Some v)
    then show ?thesis using parse_result[OF that(1,2), of v] that(3) by blast
  qed
  have err: "e = ValueError" if "parse_extracted_text s = Inl e"
    using that parse_loop_error unfolding parse_extracted_text_def by blast
  show ?thesis using parse_ok_iff[of s] omit err parse_empty by blast
qed

theorem parse_total_on_float_tokens_witness:
  "parse_extracted_text ''Lead 3'' = Inr [Lead \<mapsto> Fin 3] \<and>
   (pH, ''pH'') \<in> set patterns \<and>
   re_search ''pH'' ''Lead 3'' = None \<and>
   [Lead \<mapsto> Fin 3] pH = None"
proof -
  note t = parse_total_on_float_tokens[of "''Lead 3''" "[Lead \<mapsto> Fin 3]" pH "''pH''"]
  have a: "parse_extracted_text ''Lead 3'' = Inr [Lead \<mapsto> Fin 3]"
    by (simp add: eval_defs)
  have b: "(pH, ''pH'') \<in> set patterns" by (simp add: patterns_def)
  have c: "re_search ''pH'' ''Lead 3'' = None" by (simp add: eval_defs)
  then have d: "\<forall>tok. \<not> first_match ''pH'' ''Lead 3'' tok"
    using re_search_first_match[of "''pH''" "''Lead 3''"] by simp
  have "[Lead \<mapsto> Fin 3] pH = None" using t a b d by blast
  then show ?thesis using a b c by simp
qed

lemma every_param_has_pattern: "\<exists>lab. (p, lab) \<in> set patterns"
  by (cases p) (auto simp: patterns_def)

lemma manual_nonneg:
  assumes "manual_readings entered = Some m" "m p = Some v"
  shows "fle (Fin 0) v"
proof -
  have all: "\<forall>q \<in> set [pH, Chlorine, Hardness, Nitrates, Lead].
      number_input (number_input_bounds q) (entered q) \<noteq> None"
    and m: "m = (\<lambda>p. Some (Fin (entered p)))"
    using assms(1) by (auto simp: manual_readings_def split: if_splits)
  have "p \<in> set [pH, Chlorine, Hardness, Nitrates, Lead]" by (cases p) simp_all
  then have "number_input (number_input_bounds p) (entered p) \<noteq> None" using all by blast
  then have "fst (number_input_bounds p) \<le> entered p"
    by (simp add: number_input_def split: if_splits)
  moreover have "fst (number_input_bounds p) = 0"
    by (cases p) (simp_all add: number_input_bounds_def)
  ultimately have "0 \<le> entered p" by simp
  then show ?thesis using m assms(2) by auto
qed

text \<open>
  C8. Every value in a mapping returned by parsing is at least 0 (the group has no sign),
  and so is every value the manual widgets hand over, whose lower bound is 0.
\<close>

theorem readings_nonnegative:
  "(parse_extracted_text s = Inr m \<and> m p = Some v \<longrightarrow> fle (Fin 0) v) \<and>
   (manual_readings entered = Some m' \<and> m' p = Some v' \<longrightarrow> fle (Fin 0) v')"
proof -
  have "fle (Fin 0) v" if h1: "parse_extracted_text s = Inr m" and h2: "m p = Some v"
  proof -
    obtain lab where lab: "(p, lab) \<in> set patterns" using every_param_has_pattern by blast
    obtain t where "py_float t = Inr v"
      using parse_result[OF h1 lab, of v] h2 by blast
    then show ?thesis by (rule py_float_nonneg)
  qed
  then show ?thesis using manual_nonneg by blast
qed

theorem readings_nonnegative_witness:
  "parse_extracted_text ''pH12.3mg'' = Inr [pH \<mapsto> Fin 12.3] \<and>
   fle (Fin 0) (Fin 12.3) \<and>
   manual_readings (\<lambda>p. 1) = Some (\<lambda>p. Some (Fin 1)) \<and> fle (Fin 0) (Fin 1)"
proof -
  note t = readings_nonnegative[of "''pH12.3mg''" "[pH \<mapsto> Fin 12.3]" pH "Fin 12.3"
      "\<lambda>p. 1" "\<lambda>p. Some (Fin 1)" "Fin 1"]
  have a: "parse_extracted_text ''pH12.3mg'' = Inr [pH \<mapsto> Fin 12.3]"
    by (rule parse_example_embedded)
  have b: "manual_readings (\<lambda>p. 1) = Some (\<lambda>p. Some (Fin 1))"
    by (simp add: manual_readings_def number_input_def number_input_bounds_def)
  have c: "[pH \<mapsto> Fin 12.3] pH = Some (Fin 12.3)" by simp
  show ?thesis using t a b c by blast
qed

section \<open>Nearest known zipcode and the remote lookup\<close>

lemma sin_sq_upper: "(sin x)\<^sup>2 \<le> x\<^sup>2" for x :: real
  using abs_sin_x_le_abs_x[of x] by (simp add: abs_le_square_iff)

lemma sin_minus_x_bound: "\<bar>sin x - x\<bar> \<le> \<bar>x\<bar> ^ 3 / 6" for x :: real
proof -
  have s: "(\<Sum>m<3. sin_coeff m * x ^ m) = x"
    by (simp add: eval_nat_numeral sin_coeff_def)
  have f: "inverse (fact 3) * \<bar>x\<bar> ^ 3 = \<bar>x\<bar> ^ 3 / 6"
    by (simp add: eval_nat_numeral)
  show ?thesis using Maclaurin_sin_bound[of x 3] unfolding s f .
qed

lemma sin_sq_lower:
  fixes x :: real
  assumes "\<bar>x\<bar> \<le> 1 / 10"
  shows "(98 / 100) * x\<^sup>2 \<le> (sin x)\<^sup>2"
proof -
  define a where "a = \<bar>x\<bar>"
  have a: "0 \<le> a" "a \<le> 1 / 10" using assms by (simp_all add: a_def)
  have "a * a \<le> (1 / 10) * (1 / 10)" using a by (intro mult_mono) simp_all
  then have "a * (a * a) \<le> a * (1 / 100)" using a by (intro mult_left_mono) simp_all
  then have cube: "a ^ 3 / 6 \<le> a / 600" by (simp add: power3_eq_cube)
  have "\<bar>x\<bar> - \<bar>sin x\<bar> \<le> \<bar>sin x - x\<bar>" by simp
  then have "a - \<bar>sin x\<bar> \<le> a ^ 3 / 6" using sin_minus_x_bound[of x] by (simp add: a_def)
  then have low: "(99 / 100) * a \<le> \<bar>sin x\<bar>" using cube a by simp
  have "((99 / 100) * a)\<^sup>2 \<le> \<bar>sin x\<bar>\<^sup>2"
    using low a by (intro power_mono) simp_all
  then have "(9801 / 10000) * a\<^sup>2 \<le> (sin x)\<^sup>2" by (simp add: power_mult_distrib power2_eq_square)
  moreover have "a\<^sup>2 = x\<^sup>2" by (simp add: a_def)
  ultimately have m: "(9801 / 10000) * x\<^sup>2 \<le> (sin x)\<^sup>2" by simp
  have "0 \<le> x\<^sup>2" by simp
  then show ?thesis using m by linarith
qed

lemma cos_lower: "1 - x\<^sup>2 / 2 \<le> cos x" for x :: real
proof -
  have "cos x = 1 - 2 * (sin (x / 2))\<^sup>2" using cos_double_sin[of "x / 2"] by simp
  moreover have "(sin (x / 2))\<^sup>2 \<le> (x / 2)\<^sup>2" by (rule sin_sq_upper)
  ultimately show ?thesis by (simp add: power2_eq_square)
qed

lemma cos_cos_le_one: "cos a * cos b \<le> 1" for a b :: real
proof -
  have "\<bar>cos a * cos b\<bar> \<le> 1" by (simp add: abs_mult mult_le_one)
  then show ?thesis by simp
qed

lemma half_angle: "(radians y - radians x) / 2 = (y - x) * (pi / 360)"
  by (simp add: radians_def field_simps)

lemma hav_upper:
  "haversine (f1, l1) (f2, l2) \<le> ((f2 - f1)\<^sup>2 + (l2 - l1)\<^sup>2) * (pi / 360)\<^sup>2"
proof -
  let ?A = "(f2 - f1) * (pi / 360)" and ?B = "(l2 - l1) * (pi / 360)"
  have 1: "(sin ?A)\<^sup>2 \<le> ?A\<^sup>2" by (rule sin_sq_upper)
  have "cos (radians f1) * cos (radians f2) * (sin ?B)\<^sup>2 \<le> 1 * (sin ?B)\<^sup>2"
    by (intro mult_right_mono cos_cos_le_one) simp
  also have "\<dots> \<le> ?B\<^sup>2" using sin_sq_upper[of ?B] by simp
  finally have 2: "cos (radians f1) * cos (radians f2) * (sin ?B)\<^sup>2 \<le> ?B\<^sup>2" .
  have "haversine (f1, l1) (f2, l2) \<le> ?A\<^sup>2 + ?B\<^sup>2"
    unfolding haversine_def fst_conv snd_conv half_angle using 1 2 by simp
  also have "\<dots> = ((f2 - f1)\<^sup>2 + (l2 - l1)\<^sup>2) * (pi / 360)\<^sup>2"
    by (simp add: power_mult_distrib power_divide distrib_right)
  finally show ?thesis .
qed

lemma small_angle:
  fixes d :: real
  assumes "\<bar>d\<bar> \<le> 1"
  shows "\<bar>d * (pi / 360)\<bar> \<le> 1 / 10"
proof -
  have "\<bar>d * (pi / 360)\<bar> = \<bar>d\<bar> * (pi / 360)" by (simp add: abs_mult)
  also have "\<dots> \<le> 1 * (4 / 360)"
    using assms pi_less_4 by (intro mult_mono) simp_all
  finally show ?thesis by simp
qed

lemma cos_radians_nonneg:
  assumes "0 \<le> f" "f \<le> 90"
  shows "0 \<le> cos (radians f)"
proof (rule cos_ge_zero)
  have "0 \<le> radians f" using assms by (simp add: radians_def)
  then show "- (pi / 2) \<le> radians f" using pi_ge_zero by linarith
  have "f * pi \<le> 90 * pi" using assms by (intro mult_right_mono) simp_all
  then show "radians f \<le> pi / 2" by (simp add: radians_def)
qed

lemma cos_radians_lower:
  assumes "0 \<le> f" "f \<le> 38"
  shows "64 / 100 \<le> cos (radians f)"
proof -
  have r0: "0 \<le> radians f" using assms by (simp add: radians_def)
  have "f * pi \<le> 38 * 4" using assms pi_less_4 by (intro mult_mono) simp_all
  then have r1: "radians f \<le> 152 / 180" by (simp add: radians_def mult.commute)
  have "radians f * radians f \<le> (152 / 180) * (152 / 180)"
    using r0 r1 by (intro mult_mono) simp_all
  then have "(radians f)\<^sup>2 / 2 \<le> 36 / 100" by (simp add: power2_eq_square)
  then show ?thesis using cos_lower[of "radians f"] by simp
qed

lemma hav_lower_lat:
  assumes "0 \<le> f1" "f1 \<le> 90" "0 \<le> f2" "f2 \<le> 90" "\<bar>f2 - f1\<bar> \<le> 1"
  shows "(98 / 100) * (f2 - f1)\<^sup>2 * (pi / 360)\<^sup>2 \<le> haversine (f1, l1) (f2, l2)"
proof -
  let ?A = "(f2 - f1) * (pi / 360)" and ?B = "(l2 - l1) * (pi / 360)"
  have "(98 / 100) * ?A\<^sup>2 \<le> (sin ?A)\<^sup>2"
    by (rule sin_sq_lower) (rule small_angle[OF assms(5)])
  moreover have "0 \<le> cos (radians f1) * cos (radians f2) * (sin ?B)\<^sup>2"
    using cos_radians_nonneg[OF assms(1,2)] cos_radians_nonneg[OF assms(3,4)] by simp
  ultimately have "(98 / 100) * ?A\<^sup>2 \<le> haversine (f1, l1) (f2, l2)"
    unfolding haversine_def fst_conv snd_conv half_angle by simp
  then show ?thesis by (simp add: power_mult_distrib power_divide)
qed

lemma hav_lower_lon:
  assumes "0 \<le> f1" "f1 \<le> 38" "0 \<le> f2" "f2 \<le> 38" "\<bar>l2 - l1\<bar> \<le> 1"
  shows "(4 / 10) * ((98 / 100) * (l2 - l1)\<^sup>2 * (pi / 360)\<^sup>2) \<le> haversine (f1, l1) (f2, l2)"
proof -
  let ?A = "(f2 - f1) * (pi / 360)" and ?B = "(l2 - l1) * (pi / 360)"
  have sb: "(98 / 100) * ?B\<^sup>2 \<le> (sin ?B)\<^sup>2"
    by (rule sin_sq_lower) (rule small_angle[OF assms(5)])
  have "(64 / 100) * (64 / 100) \<le> cos (radians f1) * cos (radians f2)"
    using cos_radians_lower[OF assms(1,2)] cos_radians_lower[OF assms(3,4)]
    by (intro mult_mono) simp_all
  then have cc: "4 / 10 \<le> cos (radians f1) * cos (radians f2)" by simp
  have "(4 / 10) * ((98 / 100) * ?B\<^sup>2) \<le> cos (radians f1) * cos (radians f2) * (sin ?B)\<^sup>2"
    using cc sb by (intro mult_mono) simp_all
  moreover have "0 \<le> (sin ?A)\<^sup>2" by simp
  ultimately have "(4 / 10) * ((98 / 100) * ?B\<^sup>2) \<le> haversine (f1, l1) (f2, l2)"
    unfolding haversine_def fst_conv snd_conv half_angle by linarith
  then show ?thesis by (simp add: power_mult_distrib power_divide)
qed

lemma great_circle_mono:
  assumes "0 \<le> haversine a b" "haversine a b \<le> haversine a c" "haversine a c \<le> 1"
  shows "great_circle_miles a b \<le> great_circle_miles a c"
proof -
  have "sqrt (haversine a b) \<le> sqrt (haversine a c)" using assms(2) by simp
  moreover have "- 1 \<le> sqrt (haversine a b)"
    using assms(1) real_sqrt_ge_zero[of "haversine a b"] by linarith
  moreover have "sqrt (haversine a c) \<le> 1" using assms(3) real_sqrt_le_1_iff by blast
  ultimately have "arcsin (sqrt (haversine a b)) \<le> arcsin (sqrt (haversine a c))"
    by (intro arcsin_le_arcsin)
  then show ?thesis
    unfolding great_circle_miles_def earth_radius_miles_def
    by (intro mult_left_mono) simp_all
qed

lemma nearer_lat:
  assumes f: "0 \<le> f0" "f0 \<le> 90" "0 \<le> f1" "f1 \<le> 90" "0 \<le> f2" "f2 \<le> 90"
    and d: "\<bar>f1 - f0\<bar> \<le> 1" "\<bar>f2 - f0\<bar> \<le> 1" "\<bar>l2 - l0\<bar> \<le> 1"
    and c: "(f1 - f0)\<^sup>2 + (l1 - l0)\<^sup>2 \<le> (98 / 100) * (f2 - f0)\<^sup>2"
  shows "great_circle_miles (f0, l0) (f1, l1) \<le> great_circle_miles (f0, l0) (f2, l2)"
proof (rule great_circle_mono)
  let ?K = "(pi / 360)\<^sup>2"
  have K0: "0 \<le> ?K" by simp
  have "0 \<le> (98 / 100) * (f1 - f0)\<^sup>2 * ?K" by simp
  then show "0 \<le> haversine (f0, l0) (f1, l1)"
    using hav_lower_lat[OF f(1,2,3,4) d(1), of l0 l1] by linarith
  have "haversine (f0, l0) (f1, l1) \<le> ((f1 - f0)\<^sup>2 + (l1 - l0)\<^sup>2) * ?K"
    by (rule hav_upper)
  also have "\<dots> \<le> ((98 / 100) * (f2 - f0)\<^sup>2) * ?K"
    using c K0 by (rule mult_right_mono)
  also have "\<dots> \<le> haversine (f0, l0) (f2, l2)"
    using hav_lower_lat[OF f(1,2,5,6) d(2), of l0 l2] by (simp add: mult.assoc)
  finally show "haversine (f0, l0) (f1, l1) \<le> haversine (f0, l0) (f2, l2)" .
  have "pi / 360 \<le> 1" using pi_less_4 by simp
  then have K1: "?K \<le> 1" by (simp add: power_le_one)
  have "(f2 - f0)\<^sup>2 \<le> 1" "(l2 - l0)\<^sup>2 \<le> 1"
    using d(2,3) by (simp_all add: abs_square_le_1)
  then have s: "(f2 - f0)\<^sup>2 + (l2 - l0)\<^sup>2 \<le> 2" by simp
  have "pi / 360 \<le> 1 / 2" using pi_less_4 by simp
  then have "(pi / 360)\<^sup>2 \<le> (1 / 2)\<^sup>2" by (intro power_mono) simp_all
  then have K2: "?K \<le> 1 / 4" by (simp add: power2_eq_square)
  have "haversine (f0, l0) (f2, l2) \<le> ((f2 - f0)\<^sup>2 + (l2 - l0)\<^sup>2) * ?K"
    by (rule hav_upper)
  also have "\<dots> \<le> 2 * (1 / 4)" using s K2 by (intro mult_mono) simp_all
  finally show "haversine (f0, l0) (f2, l2) \<le> 1" by simp
qed

lemma nearer_lon:
  assumes f: "0 \<le> f0" "f0 \<le> 38" "0 \<le> f1" "f1 \<le> 38" "0 \<le> f2" "f2 \<le> 38"
    and d: "\<bar>f1 - f0\<bar> \<le> 1" "\<bar>f2 - f0\<bar> \<le> 1" "\<bar>l2 - l0\<bar> \<le> 1"
    and c: "(f1 - f0)\<^sup>2 + (l1 - l0)\<^sup>2 \<le> (4 / 10) * ((98 / 100) * (l2 - l0)\<^sup>2)"
  shows "great_circle_miles (f0, l0) (f1, l1) \<le> great_circle_miles (f0, l0) (f2, l2)"
proof (rule great_circle_mono)
  let ?K = "(pi / 360)\<^sup>2"
  have K0: "0 \<le> ?K" by simp
  have f90: "f0 \<le> 90" "f1 \<le> 90" using f by simp_all
  have "0 \<le> (98 / 100) * (f1 - f0)\<^sup>2 * ?K" by simp
  then show "0 \<le> haversine (f0, l0) (f1, l1)"
    using hav_lower_lat[OF f(1) f90(1) f(3) f90(2) d(1), of l0 l1] by linarith
  have "haversine (f0, l0) (f1, l1) \<le> ((f1 - f0)\<^sup>2 + (l1 - l0)\<^sup>2) * ?K"
    by (rule hav_upper)
  also have "\<dots> \<le> ((4 / 10) * ((98 / 100) * (l2 - l0)\<^sup>2)) * ?K"
    using c K0 by (rule mult_right_mono)
  also have "\<dots> \<le> haversine (f0, l0) (f2, l2)"
    using hav_lower_lon[OF f(1,2,5,6) d(3), of ] by (simp add: mult.assoc)
  finally show "haversine (f0, l0) (f1, l1) \<le> haversine (f0, l0) (f2, l2)" .
  have "(f2 - f0)\<^sup>2 \<le> 1" "(l2 - l0)\<^sup>2 \<le> 1"
    using d(2,3) by (simp_all add: abs_square_le_1)
  then have s: "(f2 - f0)\<^sup>2 + (l2 - l0)\<^sup>2 \<le> 2" by simp
  have "pi / 360 \<le> 1 / 2" using pi_less_4 by simp
  then have "(pi / 360)\<^sup>2 \<le> (1 / 2)\<^sup>2" by (intro power_mono) simp_all
  then have K2: "?K \<le> 1 / 4" by (simp add: power2_eq_square)
  have "haversine (f0, l0) (f2, l2) \<le> ((f2 - f0)\<^sup>2 + (l2 - l0)\<^sup>2) * ?K"
    by (rule hav_upper)
  also have "\<dots> \<le> 2 * (1 / 4)" using s K2 by (intro mult_mono) simp_all
  finally show "haversine (f0, l0) (f2, l2) \<le> 1" by simp
qed

lemma example_95112:
  "great_circle_miles (37.35, -121.90) (37.3422, -121.8996) \<le>
   great_circle_miles (37.35, -121.90) (37.3535, -121.8865)"
  by (rule nearer_lon) (simp_all add: power2_eq_square)

lemma example_95113:
  "great_circle_miles (37.35, -121.90) (37.3422, -121.8996) \<le>
   great_circle_miles (37.35, -121.90) (37.3333, -121.8907)"
  by (rule nearer_lat) (simp_all add: power2_eq_square)

lemma example_95116:
  "great_circle_miles (37.35, -121.90) (37.3422, -121.8996) \<le>
   great_circle_miles (37.35, -121.90) (37.3496, -121.8569)"
  by (rule nearer_lon) (simp_all add: power2_eq_square)

lemma example_95117:
  "great_circle_miles (37.35, -121.90) (37.3422, -121.8996) \<le>
   great_circle_miles (37.35, -121.90) (37.3126, -121.9502)"
  by (rule nearer_lat) (simp_all add: power2_eq_square)

lemma example_95118:
  "great_circle_miles (37.35, -121.90) (37.3422, -121.8996) \<le>
   great_circle_miles (37.35, -121.90) (37.2505, -121.8891)"
  by (rule nearer_lat) (simp_all add: power2_eq_square)

lemma example_95120:
  "great_circle_miles (37.35, -121.90) (37.3422, -121.8996) \<le>
   great_circle_miles (37.35, -121.90) (37.2060, -121.8133)"
  by (rule nearer_lat) (simp_all add: power2_eq_square)

lemma example_nearest:
  "get_nearest_zipcode great_circle_miles 37.35 (-121.90) = Some ''95110''"
  using example_95112 example_95113 example_95116 example_95117 example_95118 example_95120
  by (simp add: get_nearest_zipcode_def known_zipcode_coords_def Let_def not_less)

lemma nearest_loop_running:
  "\<exists>r. nearest_loop d p xs (Fin m) (Some z0) = Some r \<and>
     ((r = z0 \<and> (\<forall>x\<in>set xs. m \<le> d p (snd x))) \<or>
      (\<exists>pre c post. xs = pre @ (r, c) # post \<and> d p c < m \<and>
         (\<forall>x\<in>set pre. d p c < d p (snd x)) \<and> (\<forall>x\<in>set post. d p c \<le> d p (snd x))))"
proof (induction xs arbitrary: m z0)
  case Nil
  show ?case by simp
next
  case (Cons a xs)
  obtain z c where a: "a = (z, c)" by (cases a) auto
  show ?case
  proof (cases "d p c < m")
    case True
    from Cons.IH[of "d p c" z] obtain r where
      r: "nearest_loop d p xs (Fin (d p c)) (Some z) = Some r" and
      alt: "(r = z \<and> (\<forall>x\<in>set xs. d p c \<le> d p (snd x))) \<or>
        (\<exists>pre c' post. xs = pre @ (r, c') # post \<and> d p c' < d p c \<and>
           (\<forall>x\<in>set pre. d p c' < d p (snd x)) \<and> (\<forall>x\<in>set post. d p c' \<le> d p (snd x)))"
      by blast
    have run: "nearest_loop d p (a # xs) (Fin m) (Some z0) = Some r"
      using True r a by simp
    from alt show ?thesis
    proof
      assume h: "r = z \<and> (\<forall>x\<in>set xs. d p c \<le> d p (snd x))"
      then have "a # xs = [] @ (r, c) # xs \<and> d p c < m \<and>
          (\<forall>x\<in>set []. d p c < d p (snd x)) \<and> (\<forall>x\<in>set xs. d p c \<le> d p (snd x))"
        using a True by simp
      then show ?thesis using run by blast
    next
      assume "\<exists>pre c' post. xs = pre @ (r, c') # post \<and> d p c' < d p c \<and>
           (\<forall>x\<in>set pre. d p c' < d p (snd x)) \<and> (\<forall>x\<in>set post. d p c' \<le> d p (snd x))"
      then obtain pre c' post where h: "xs = pre @ (r, c') # post" "d p c' < d p c"
        "\<forall>x\<in>set pre. d p c' < d p (snd x)" "\<forall>x\<in>set post. d p c' \<le> d p (snd x)"
        by blast
      have "a # xs = (a # pre) @ (r, c') # post \<and> d p c' < m \<and>
          (\<forall>x\<in>set (a # pre). d p c' < d p (snd x)) \<and> (\<forall>x\<in>set post. d p c' \<le> d p (snd x))"
        using h a True by simp
      then show ?thesis using run by blast
    qed
  next
    case False
    from Cons.IH[of m z0] obtain r where
      r: "nearest_loop d p xs (Fin m) (Some z0) = Some r" and
      alt: "(r = z0 \<and> (\<forall>x\<in>set xs. m \<le> d p (snd x))) \<or>
        (\<exists>pre c' post. xs = pre @ (r, c') # post \<and> d p c' < m \<and>
           (\<forall>x\<in>set pre. d p c' < d p (snd x)) \<and> (\<forall>x\<in>set post. d p c' \<le> d p (snd x)))"
      by blast
    have run: "nearest_loop d p (a # xs) (Fin m) (Some z0) = Some r"
      using False r a by simp
    from alt show ?thesis
    proof
      assume "r = z0 \<and> (\<forall>x\<in>set xs. m \<le> d p (snd x))"
      then have "r = z0 \<and> (\<forall>x\<in>set (a # xs). m \<le> d p (snd x))"
        using a False by simp
      then show ?thesis using run by blast
    next
      assume "\<exists>pre c' post. xs = pre @ (r, c') # post \<and> d p c' < m \<and>
           (\<forall>x\<in>set pre. d p c' < d p (snd x)) \<and> (\<forall>x\<in>set post. d p c' \<le> d p (snd x))"
      then obtain pre c' post where h: "xs = pre @ (r, c') # post" "d p c' < m"
        "\<forall>x\<in>set pre. d p c' < d p (snd x)" "\<forall>x\<in>set post. d p c' \<le> d p (snd x)"
        by blast
      have "a # xs = (a # pre) @ (r, c') # post \<and> d p c' < m \<and>
          (\<forall>x\<in>set (a # pre). d p c' < d p (snd x)) \<and> (\<forall>x\<in>set post. d p c' \<le> d p (snd x))"
        using h a False by simp
      then show ?thesis using run by blast
    qed
  qed
qed

lemma nearest_loop_first_minimal:
  assumes "xs \<noteq> []"
  shows "\<exists>pre z c post. xs = pre @ (z, c) # post \<and>
     nearest_loop d p xs PosInf None = Some z \<and>
     (\<forall>x\<in>set pre. d p c < d p (snd x)) \<and> (\<forall>x\<in>set post. d p c \<le> d p (snd x))"
proof -
  obtain z0 c0 ys where xs: "xs = (z0, c0) # ys" using assms by (cases xs) auto
  have start: "nearest_loop d p xs PosInf None = nearest_loop d p ys (Fin (d p c0)) (Some z0)"
    by (simp add: xs)
  from nearest_loop_running[of d p ys "d p c0" z0] obtain r where
    r: "nearest_loop d p ys (Fin (d p c0)) (Some z0) = Some r" and
    alt: "(r = z0 \<and> (\<forall>x\<in>set ys. d p c0 \<le> d p (snd x))) \<or>
      (\<exists>pre c post. ys = pre @ (r, c) # post \<and> d p c < d p c0 \<and>
         (\<forall>x\<in>set pre. d p c < d p (snd x)) \<and> (\<forall>x\<in>set post. d p c \<le> d p (snd x)))"
    by blast
  from alt show ?thesis
  proof
    assume "r = z0 \<and> (\<forall>x\<in>set ys. d p c0 \<le> d p (snd x))"
    then have "xs = [] @ (r, c0) # ys \<and> nearest_loop d p xs PosInf None = Some r \<and>
        (\<forall>x\<in>set []. d p c0 < d p (snd x)) \<and> (\<forall>x\<in>set ys. d p c0 \<le> d p (snd x))"
      using xs start r by simp
    then show ?thesis by blast
  next
    assume "\<exists>pre c post. ys = pre @ (r, c) # post \<and> d p c < d p c0 \<and>
         (\<forall>x\<in>set pre. d p c < d p (snd x)) \<and> (\<forall>x\<in>set post. d p c \<le> d p (snd x))"
    then obtain pre c post where h: "ys = pre @ (r, c) # post" "d p c < d p c0"
      "\<forall>x\<in>set pre. d p c < d p (snd x)" "\<forall>x\<in>set post. d p c \<le> d p (snd x)"
      by blast
    have "xs = ((z0, c0) # pre) @ (r, c) # post \<and> nearest_loop d p xs PosInf None = Some r \<and>
        (\<forall>x\<in>set ((z0, c0) # pre). d p c < d p (snd x)) \<and> (\<forall>x\<in>set post. d p c \<le> d p (snd x))"
      using xs start r h by simp
    then show ?thesis by blast
  qed
qed

lemma known_zipcodes: 
  "z \<in> fst ` set known_zipcode_coords \<Longrightarrow> z \<noteq> []"
  by (auto simp: known_zipcode_coords_def)

lemma nearest_value_first_minimal:
  "\<exists>pre z c post. known_zipcode_coords = pre @ (z, c) # post \<and>
     nearest_value d lat lon = JString z \<and> z \<noteq> [] \<and>
     (\<forall>x\<in>set pre. d (lat, lon) c < d (lat, lon) (snd x)) \<and>
     (\<forall>x\<in>set post. d (lat, lon) c \<le> d (lat, lon) (snd x))"
proof -
  have ne: "known_zipcode_coords \<noteq> []" by (simp add: known_zipcode_coords_def)
  from nearest_loop_first_minimal[OF ne, of d "(lat, lon)"] obtain pre z c post where
    h: "known_zipcode_coords = pre @ (z, c) # post"
    "nearest_loop d (lat, lon) known_zipcode_coords PosInf None = Some z"
    "\<forall>x\<in>set pre. d (lat, lon) c < d (lat, lon) (snd x)"
    "\<forall>x\<in>set post. d (lat, lon) c \<le> d (lat, lon) (snd x)"
    by blast
  have "z \<in> fst ` set known_zipcode_coords" by (subst h(1)) force
  then have "z \<noteq> []" by (rule known_zipcodes)
  moreover have "nearest_value d lat lon = JString z"
    using h(2) by (simp add: nearest_value_def get_nearest_zipcode_def)
  ultimately show ?thesis using h(1,3,4) by blast
qed

lemma geocode_fails:
  "get_zipcode_from_coordinates d (Fails e) lat lon =
     Some (Inr (nearest_value d lat lon, [CouldNotConnect e]))"
  by (simp add: get_zipcode_from_coordinates_def requests_get_def)

lemma geocode_silent: "get_zipcode_from_coordinates d Silent lat lon = None"
  by (simp add: get_zipcode_from_coordinates_def requests_get_def geocode_timeout_def)

lemma key_in_iff: "k \<in> fst ` set kvs \<longleftrightarrow> map_of (rev kvs) k \<noteq> None"
  by (simp add: map_of_eq_None_iff)

lemma geocode_no_address:
  "''address'' \<notin> fst ` set kvs \<Longrightarrow>
   get_zipcode_from_coordinates d (Replies (JObject kvs)) lat lon =
     Some (Inr (nearest_value d lat lon, []))"
  by (simp add: get_zipcode_from_coordinates_def requests_get_def)

lemma geocode_address:
  assumes "map_of (rev kvs) ''address'' = Some (JObject akvs)"
  shows "get_zipcode_from_coordinates d (Replies (JObject kvs)) lat lon =
     Some (Inr (case map_of (rev akvs) ''postcode'' of
                  None \<Rightarrow> nearest_value d lat lon | Some v \<Rightarrow> v, []))"
proof -
  have a: "''address'' \<in> fst ` set kvs" using assms by (simp add: key_in_iff)
  show ?thesis
  proof (cases "map_of (rev akvs) ''postcode''")
    case None
    then have "''postcode'' \<notin> fst ` set akvs" by (simp add: key_in_iff)
    then show ?thesis using a assms None
      by (simp add: get_zipcode_from_coordinates_def requests_get_def)
  next
    case (Some v)
    then have "''postcode'' \<in> fst ` set akvs" by (simp add: key_in_iff)
    then show ?thesis using a assms Some
      by (simp add: get_zipcode_from_coordinates_def requests_get_def)
  qed
qed

lemma geocode_expected_shape:
  assumes "expected_shape data"
  shows "get_zipcode_from_coordinates d (Replies data) lat lon =
     Some (Inr (case postcode_of data of None \<Rightarrow> nearest_value d lat lon | Some v \<Rightarrow> v, []))"
proof -
  obtain kvs where data: "data = JObject kvs"
    using assms by (cases data) (simp_all add: expected_shape_def)
  show ?thesis
  proof (cases "map_of (rev kvs) ''address''")
    case None
    then have "''address'' \<notin> fst ` set kvs" by (simp add: key_in_iff)
    then show ?thesis using None data by (simp add: geocode_no_address postcode_of_def)
  next
    case (Some a)
    then obtain akvs where a: "a = JObject akvs"
      using assms data by (cases a) (simp_all add: expected_shape_def)
    show ?thesis using geocode_address[of kvs akvs d lat lon] Some a data
      by (simp add: postcode_of_def)
  qed
qed

lemma example_value: "nearest_value great_circle_miles 37.35 (-121.90) = JString ''95110''"
  using example_nearest by (simp add: nearest_value_def)

text \<open>
  The example of C1 fails: with the request failing, the point (37.35, -121.90) resolves to
  95110, whose centroid is nearer than that of 95112, not to 95112.
\<close>

theorem fallback_example_is_95110:
  "get_zipcode_from_coordinates great_circle_miles (Fails ConnectionError) 37.35 (-121.90) =
     Some (Inr (JString ''95110'', [CouldNotConnect ConnectionError])) \<and>
   get_zipcode_from_coordinates great_circle_miles (Fails ConnectionError) 37.35 (-121.90) \<noteq>
     Some (Inr (JString ''95112'', [CouldNotConnect ConnectionError]))"
  using example_value by (simp add: geocode_fails)

text \<open>
  C1, as amended. When the request fails, or the answer is an object without an address or
  with an address object without a postcode, the function returns the zipcode of the entry
  of the table whose centroid is nearest to the point, the first such entry in the order of
  the table when several are equally near; the point (37.35, -121.90) resolves to 95110.
\<close>

theorem fallback_returns_first_nearest:
  "get_zipcode_from_coordinates d (Fails e) lat lon =
     Some (Inr (nearest_value d lat lon, [CouldNotConnect e])) \<and>
   (''address'' \<notin> fst ` set kvs \<longrightarrow>
      get_zipcode_from_coordinates d (Replies (JObject kvs)) lat lon =
        Some (Inr (nearest_value d lat lon, []))) \<and>
   (map_of (rev kvs) ''address'' = Some (JObject akvs) \<and> ''postcode'' \<notin> fst ` set akvs \<longrightarrow>
      get_zipcode_from_coordinates d (Replies (JObject kvs)) lat lon =
        Some (Inr (nearest_value d lat lon, []))) \<and>
   (\<exists>pre z c post. known_zipcode_coords = pre @ (z, c) # post \<and>
      nearest_value d lat lon = JString z \<and>
      (\<forall>x\<in>set pre. d (lat, lon) c < d (lat, lon) (snd x)) \<and>
      (\<forall>x\<in>set post. d (lat, lon) c \<le> d (lat, lon) (snd x))) \<and>
   nearest_value great_circle_miles 37.35 (-121.90) = JString ''95110''"
proof -
  have a: "get_zipcode_from_coordinates d (Replies (JObject kvs)) lat lon =
        Some (Inr (nearest_value d lat lon, []))"
    if "map_of (rev kvs) ''address'' = Some (JObject akvs)" "''postcode'' \<notin> fst ` set akvs"
    using geocode_address[OF that(1), of d lat lon] that(2) by (simp add: key_in_iff)
  have b: "\<exists>pre z c post. known_zipcode_coords = pre @ (z, c) # post \<and>
      nearest_value d lat lon = JString z \<and>
      (\<forall>x\<in>set pre. d (lat, lon) c < d (lat, lon) (snd x)) \<and>
      (\<forall>x\<in>set post. d (lat, lon) c \<le> d (lat, lon) (snd x))"
    using nearest_value_first_minimal[of d lat lon] by blast
  show ?thesis
    using geocode_fails[of d e lat lon] geocode_no_address[of kvs d lat lon] a b example_value
    by blast
qed

theorem fallback_returns_first_nearest_witness:
  "''address'' \<notin> fst ` set [(''error'', JString ''Unable to geocode'')] \<and>
   get_zipcode_from_coordinates great_circle_miles
     (Replies (JObject [(''error'', JString ''Unable to geocode'')])) 37.35 (-121.90) =
     Some (Inr (JString ''95110'', []))"
proof -
  note t = fallback_returns_first_nearest[of great_circle_miles ConnectionError "37.35" "-121.90"
      "[(''error'', JString ''Unable to geocode'')]" "[]"]
  have a: "''address'' \<notin> fst ` set [(''error'', JString ''Unable to geocode'')]" by simp
  show ?thesis using t a example_value by simp
qed

text \<open>
  The claim of C3 that the function never raises and always returns a zipcode that is not
  empty fails: an answer whose postcode is the empty string is returned as it is, and an
  answer whose address is not an object raises a TypeError, which the handler for
  \<^verbatim>\<open>requests.RequestException\<close> does not catch.
\<close>

theorem geocode_empty_postcode_and_type_error:
  "get_zipcode_from_coordinates great_circle_miles
     (Replies (JObject [(''address'', JObject [(''postcode'', JString [])])])) 37.35 (-121.90) =
     Some (Inr (JString [], [])) \<and>
   get_zipcode_from_coordinates great_circle_miles
     (Replies (JObject [(''address'', JNull)])) 37.35 (-121.90) = Some (Inl TypeError)"
  by (simp add: get_zipcode_from_coordinates_def requests_get_def)

text \<open>
  C3, as amended. When the request fails the function returns the nearest known zipcode and
  shows one warning; when the answer is an object whose address, if present, is an object,
  it returns the postcode of the address as it is, or the nearest known zipcode when the
  address or the postcode is absent, with no warning; neither case raises. The nearest known
  zipcode is a key of the table and is not empty.
\<close>

theorem geocode_result:
  "get_zipcode_from_coordinates d (Fails e) lat lon =
     Some (Inr (nearest_value d lat lon, [CouldNotConnect e])) \<and>
   (expected_shape data \<longrightarrow>
      get_zipcode_from_coordinates d (Replies data) lat lon =
        Some (Inr (case postcode_of data of None \<Rightarrow> nearest_value d lat lon | Some v \<Rightarrow> v, []))) \<and>
   (\<exists>z. nearest_value d lat lon = JString z \<and> z \<in> fst ` set known_zipcode_coords \<and> z \<noteq> [])"
proof -
  obtain pre z c post where h: "known_zipcode_coords = pre @ (z, c) # post"
    "nearest_value d lat lon = JString z" "z \<noteq> []"
    using nearest_value_first_minimal[of d lat lon] by blast
  have "z \<in> fst ` set known_zipcode_coords" by (subst h(1)) force
  then have "\<exists>z. nearest_value d lat lon = JString z \<and> z \<in> fst ` set known_zipcode_coords \<and> z \<noteq> []"
    using h(2,3) by blast
  then show ?thesis
    using geocode_fails[of d e lat lon] geocode_expected_shape[of data d lat lon] by blast
qed

theorem geocode_result_witness:
  "expected_shape (JObject [(''address'', JObject [(''postcode'', JString ''95113'')])]) \<and>
   get_zipcode_from_coordinates great_circle_miles
     (Replies (JObject [(''address'', JObject [(''postcode'', JString ''95113'')])]))
     37.35 (-121.90) = Some (Inr (JString ''95113'', []))"
proof -
  note t = geocode_result[of great_circle_miles ConnectionError "37.35" "-121.90"
      "JObject [(''address'', JObject [(''postcode'', JString ''95113'')])]"]
  have a: "expected_shape (JObject [(''address'', JObject [(''postcode'', JString ''95113'')])])"
    by (simp add: expected_shape_def)
  have b: "postcode_of (JObject [(''address'', JObject [(''postcode'', JString ''95113'')])]) =
      Some (JString ''95113'')"
    by (simp add: postcode_of_def)
  show ?thesis using t a b by simp
qed

text \<open>
  The claim of C9 that the request is bounded by an explicit timeout fails: the call passes
  no timeout, and with a service that never answers the function does not return.
\<close>

theorem geocode_blocks_without_timeout:
  "geocode_timeout = None \<and>
   get_zipcode_from_coordinates great_circle_miles Silent 37.35 (-121.90) = None"
  by (simp add: geocode_silent geocode_timeout_def)

text \<open>
  C9, as amended. The function returns whenever the service answers or the request fails;
  when the request fails with a timeout, the nearest known zipcode is computed and returned
  in the same call, with a warning.
\<close>

theorem geocode_returns_when_remote_returns:
  "(srv \<noteq> Silent \<longrightarrow> (\<exists>r. get_zipcode_from_coordinates d srv lat lon = Some r)) \<and>
   get_zipcode_from_coordinates d (Fails Timeout) lat lon =
     Some (Inr (nearest_value d lat lon, [CouldNotConnect Timeout]))"
proof -
  have "\<exists>r. get_zipcode_from_coordinates d srv lat lon = Some r" if "srv \<noteq> Silent"
    using that by (cases srv) (simp_all add: get_zipcode_from_coordinates_def requests_get_def)
  then show ?thesis using geocode_fails[of d Timeout lat lon] by blast
qed

theorem geocode_returns_when_remote_returns_witness:
  "Fails Timeout \<noteq> Silent \<and>
   get_zipcode_from_coordinates great_circle_miles (Fails Timeout) 37.35 (-121.90) =
     Some (Inr (JString ''95110'', [CouldNotConnect Timeout]))"
  using geocode_returns_when_remote_returns[of "Fails Timeout" great_circle_miles "37.35" "-121.90"]
    example_value
  by simp

end
